theory Spec2Isabelle
  imports Complex_Main "HOL-Library.AList"
begin

section \<open>Python values used by the dataset stage\<close>

text \<open>
  The exceptions that \<^verbatim>\<open>torchvision_dataset.py\<close> raises itself or that the
  Python operations it uses raise. \<open>ValueError\<close> and \<open>Exception\<close> carry the message
  of the \<^verbatim>\<open>raise\<close> statement.
\<close>

datatype error =
    ValueError string
  | Exception string
  | IndexError
  | KeyError
  | TypeError
  | ZeroDivisionError
  | ProviderError
  | WeightsError

text \<open>
  \<^verbatim>\<open>xs[index]\<close> on a Python list: a negative index counts from the end, and an
  index outside \<open>-len .. len - 1\<close> raises \<open>IndexError\<close>.
\<close>

definition list_getitem :: "'a list \<Rightarrow> int \<Rightarrow> error + 'a" where
  "list_getitem xs index =
     (let n = int (length xs);
          j = (if index < 0 then index + n else index)
      in if 0 \<le> j \<and> j < n then Inr (xs ! nat j) else Inl IndexError)"

text \<open>
  A transform attribute holds a callable or \<^verbatim>\<open>None\<close>. Calling \<^verbatim>\<open>None\<close> raises
  \<open>TypeError\<close>; a callable transform is a pure function on samples.
\<close>

definition call_transform :: "('s \<Rightarrow> 's) option \<Rightarrow> 's \<Rightarrow> error + 's" where
  "call_transform t x = (case t of None \<Rightarrow> Inl TypeError | Some f \<Rightarrow> Inr (f x))"

section \<open>Collections\<close>

text \<open>
  Modelled from the spec: the collection a torchvision provider returns is external to
  the repository. It is an ordered sequence of (sample, label) pairs of known length
  with a \<^verbatim>\<open>transform\<close> attribute, which the provider applies itself on every read
  when it is not \<^verbatim>\<open>None\<close>.
\<close>

record ('s, 'l) IndexedCollection =
  ic_transform :: "('s \<Rightarrow> 's) option"
  ic_items :: "('s \<times> 'l) list"

definition IndexedCollection_len :: "('s, 'l) IndexedCollection \<Rightarrow> nat" where
  "IndexedCollection_len c = length (ic_items c)"

definition IndexedCollection_getitem ::
  "('s, 'l) IndexedCollection \<Rightarrow> int \<Rightarrow> error + ('s \<times> 'l)" where
  "IndexedCollection_getitem c index =
     (case list_getitem (ic_items c) index of
        Inl e \<Rightarrow> Inl e
      | Inr (x, y) \<Rightarrow>
          (case ic_transform c of None \<Rightarrow> Inr (x, y) | Some f \<Rightarrow> Inr (f x, y)))"

text \<open>
  \<^verbatim>\<open>class PreloadedDataset\<close>: the fields \<^verbatim>\<open>self.transform\<close> and \<^verbatim>\<open>self.data\<close>.
\<close>

record ('s, 'l) PreloadedDataset =
  transform :: "('s \<Rightarrow> 's) option"
  data :: "('s \<times> 'l) list"

text \<open>
  \<^verbatim>\<open>PreloadedDataset.__getitem__\<close>: the list access comes first, then the
  transform is called on the sample, with no test for \<^verbatim>\<open>None\<close>.
\<close>

definition PreloadedDataset_getitem ::
  "('s, 'l) PreloadedDataset \<Rightarrow> int \<Rightarrow> error + ('s \<times> 'l)" where
  "PreloadedDataset_getitem self index =
     (case list_getitem (data self) index of
        Inl e \<Rightarrow> Inl e
      | Inr (x, y) \<Rightarrow>
          (case call_transform (transform self) x of
             Inl e \<Rightarrow> Inl e
           | Inr x' \<Rightarrow> Inr (x', y)))"

definition PreloadedDataset_len :: "('s, 'l) PreloadedDataset \<Rightarrow> nat" where
  "PreloadedDataset_len self = length (data self)"

text \<open>
  An entry of \<^verbatim>\<open>self.datasets\<close> is a provider's collection or, after
  \<^verbatim>\<open>prepare\<close>, a \<^verbatim>\<open>PreloadedDataset\<close>. Both answer \<^verbatim>\<open>len\<close>, indexing and the
  \<^verbatim>\<open>transform\<close> attribute.
\<close>

datatype ('s, 'l) dataset =
    Provided "('s, 'l) IndexedCollection"
  | Preloaded "('s, 'l) PreloadedDataset"

fun dataset_len :: "('s, 'l) dataset \<Rightarrow> nat" where
  "dataset_len (Provided c) = IndexedCollection_len c"
| "dataset_len (Preloaded p) = PreloadedDataset_len p"

fun dataset_getitem :: "('s, 'l) dataset \<Rightarrow> int \<Rightarrow> error + ('s \<times> 'l)" where
  "dataset_getitem (Provided c) index = IndexedCollection_getitem c index"
| "dataset_getitem (Preloaded p) index = PreloadedDataset_getitem p index"

fun dataset_transform :: "('s, 'l) dataset \<Rightarrow> ('s \<Rightarrow> 's) option" where
  "dataset_transform (Provided c) = ic_transform c"
| "dataset_transform (Preloaded p) = transform p"

fun dataset_set_transform ::
  "('s, 'l) dataset \<Rightarrow> ('s \<Rightarrow> 's) option \<Rightarrow> ('s, 'l) dataset" where
  "dataset_set_transform (Provided c) t = Provided (c\<lparr>ic_transform := t\<rparr>)"
| "dataset_set_transform (Preloaded p) t = Preloaded (p\<lparr>transform := t\<rparr>)"

text \<open>
  \<^verbatim>\<open>PreloadedDataset.__init__\<close>: the loop over \<^verbatim>\<open>range(len(dataset))\<close> appends
  \<^verbatim>\<open>dataset[idx]\<close> to \<^verbatim>\<open>self.data\<close>; an exception of the read leaves the
  constructor.
\<close>

fun preload_loop ::
  "('s, 'l) dataset \<Rightarrow> nat list \<Rightarrow> ('s \<times> 'l) list \<Rightarrow> error + ('s \<times> 'l) list" where
  "preload_loop dataset [] acc = Inr acc"
| "preload_loop dataset (idx # idxs) acc =
     (case dataset_getitem dataset (int idx) of
        Inl e \<Rightarrow> Inl e
      | Inr item \<Rightarrow> preload_loop dataset idxs (acc @ [item]))"

definition PreloadedDataset_init ::
  "('s, 'l) dataset \<Rightarrow> ('s \<Rightarrow> 's) option \<Rightarrow> error + ('s, 'l) PreloadedDataset" where
  "PreloadedDataset_init dataset t =
     (case preload_loop dataset [0 ..< dataset_len dataset] [] of
        Inl e \<Rightarrow> Inl e
      | Inr d \<Rightarrow> Inr \<lparr>transform = t, data = d\<rparr>)"

section \<open>The dataset stage\<close>

text \<open>
  The keys that \<^verbatim>\<open>__init__\<close> reads from \<^verbatim>\<open>stage_config["config"]\<close>; \<open>None\<close> is
  an absent key, for which \<^verbatim>\<open>dict.get\<close> returns its default.
\<close>

record config =
  cfg_preload :: "bool option"
  cfg_dataset_name :: "string option"
  cfg_split :: "string list option"
  cfg_weights :: "string option"
  cfg_batch_size :: "int option"

definition empty_config :: config where
  "empty_config =
     \<lparr>cfg_preload = None, cfg_dataset_name = None, cfg_split = None,
      cfg_weights = None, cfg_batch_size = None\<rparr>"

text \<open>
  Modelled from the spec: \<^verbatim>\<open>Stage.__init__\<close> of \<^verbatim>\<open>stages/stage.py\<close> is not
  part of the source at hand. It stores the configuration (the stage's name, the
  parent's name and whether logs are disabled) and has no effect beyond that.
\<close>

record stage_config =
  sc_name :: string
  sc_disable_logs :: bool
  sc_config :: "config option"

text \<open>\<^verbatim>\<open>stage_config.get("config", {})\<close>.\<close>

definition get_config :: "stage_config \<Rightarrow> config" where
  "get_config stage_config =
     (case sc_config stage_config of None \<Rightarrow> empty_config | Some c \<Rightarrow> c)"

text \<open>
  What the constructor reaches outside the program: the working directory and the
  file system (\<^verbatim>\<open>os.getcwd\<close>, \<^verbatim>\<open>os.path.exists\<close>), the namespace
  \<^verbatim>\<open>torchvision.datasets.__dict__\<close>, the weights registry (\<^verbatim>\<open>get_weight\<close> followed
  by \<^verbatim>\<open>.transforms()\<close>; \<open>None\<close> when the lookup raises) and \<^verbatim>\<open>v2.ToTensor()\<close>.
  A provider takes the root, the split and the download flag, and returns the raw items
  or raises.
\<close>

type_synonym ('s, 'l) provider = "string \<Rightarrow> string \<Rightarrow> bool \<Rightarrow> error + ('s \<times> 'l) list"

text \<open>
  What a name is bound to in \<^verbatim>\<open>torchvision.datasets.__dict__\<close>: a callable, which
  is a provider, or an object that cannot be called, such as the string under
  \<^verbatim>\<open>__name__\<close> or an imported submodule. In the environment below, \<open>None\<close> is a
  name with no entry or bound to \<^verbatim>\<open>None\<close>: \<^verbatim>\<open>__dict__.get(dataset_name, None)\<close>
  returns \<^verbatim>\<open>None\<close> for both.
\<close>

datatype ('s, 'l) namespace_entry = Callable "('s, 'l) provider" | NotCallable

record ('s, 'l) env =
  cwd :: string
  path_exists :: "string \<Rightarrow> bool"
  providers :: "string \<Rightarrow> ('s, 'l) namespace_entry option"
  get_weight :: "string \<Rightarrow> ('s \<Rightarrow> 's) option"
  ToTensor :: "'s \<Rightarrow> 's"

datatype io_event =
    Getcwd
  | PathExists string
  | GetWeight string
  | ProviderCall string string bool

text \<open>\<^verbatim>\<open>os.path.join\<close> on POSIX: an absolute component discards what precedes it.\<close>

fun os_path_join :: "string \<Rightarrow> string list \<Rightarrow> string" where
  "os_path_join path [] = path"
| "os_path_join path (b # bs) =
     (if b \<noteq> [] \<and> hd b = CHR ''/'' then os_path_join b bs
      else if path = [] \<or> last path = CHR ''/'' then os_path_join (path @ b) bs
      else os_path_join (path @ ''/'' @ b) bs)"

record ('s, 'l) TorchVisionDataset =
  name :: string
  parent_name :: string
  disable_logs :: bool
  preload :: bool
  dataset :: "('s, 'l) namespace_entry"
  datasets :: "(string \<times> ('s, 'l) dataset) list"
  batch_size :: int

text \<open>
  The dictionary comprehension of \<^verbatim>\<open>__init__\<close>: one call of \<^verbatim>\<open>self.dataset\<close>
  per element of \<^verbatim>\<open>split\<close>, in order; a key that occurs again keeps its place and
  takes the new value. Calling an object that is not callable raises \<open>TypeError\<close>
  and reaches nothing outside the program. The provider calls made are recorded, also
  when a call raises.
\<close>

fun build_datasets ::
  "('s, 'l) namespace_entry \<Rightarrow> string \<Rightarrow> bool \<Rightarrow> ('s \<Rightarrow> 's) option \<Rightarrow> string list \<Rightarrow>
   (string \<times> ('s, 'l) dataset) list \<Rightarrow> io_event list \<Rightarrow>
   io_event list \<times> (error + (string \<times> ('s, 'l) dataset) list)" where
  "build_datasets cls root_dir download t [] acc io = (io, Inr acc)"
| "build_datasets cls root_dir download t (x # xs) acc io =
     (case cls of
        NotCallable \<Rightarrow> (io, Inl TypeError)
      | Callable provider \<Rightarrow>
          (case provider root_dir x download of
             Inl e \<Rightarrow> (io @ [ProviderCall root_dir x download], Inl e)
           | Inr items \<Rightarrow>
               build_datasets cls root_dir download t xs
                 (AList.update x (Provided \<lparr>ic_transform = t, ic_items = items\<rparr>) acc)
                 (io @ [ProviderCall root_dir x download])))"

text \<open>
  \<^verbatim>\<open>TorchVisionDataset.__init__\<close>, with the trace of what it reached outside the
  program before it returned or raised.
\<close>

definition TorchVisionDataset_init ::
  "('s, 'l) env \<Rightarrow> stage_config \<Rightarrow> string \<Rightarrow>
   io_event list \<times> (error + ('s, 'l) TorchVisionDataset)" where
  "TorchVisionDataset_init e stage_config parent =
     (let cfg = get_config stage_config;
          preload_v = (case cfg_preload cfg of None \<Rightarrow> False | Some b \<Rightarrow> b)
      in case cfg_dataset_name cfg of
           None \<Rightarrow> ([], Inl (ValueError ''Missing dataset name.''))
         | Some dataset_name \<Rightarrow>
            (case providers e dataset_name of
               None \<Rightarrow>
                 ([], Inl (Exception (''Could not find dataset '' @ dataset_name @ ''.'')))
             | Some cls \<Rightarrow>
                (let split = (case cfg_split cfg of None \<Rightarrow> [''val''] | Some s \<Rightarrow> s);
                     probe = os_path_join (cwd e) [''data'', dataset_name];
                     dataset_downloaded = path_exists e probe;
                     io = [Getcwd, PathExists probe];
                     root_dir = ''data/'' @ dataset_name;
                     built =
                       (case cfg_weights cfg of
                          None \<Rightarrow>
                            build_datasets cls root_dir (\<not> dataset_downloaded)
                              (Some (ToTensor e)) split [] io
                        | Some weights_name \<Rightarrow>
                           (case get_weight e weights_name of
                              None \<Rightarrow> (io @ [GetWeight weights_name], Inl WeightsError)
                            | Some preprocess \<Rightarrow>
                                build_datasets cls root_dir (\<not> dataset_downloaded)
                                  (Some preprocess) split [] (io @ [GetWeight weights_name])))
                 in case built of
                      (io', Inl err) \<Rightarrow> (io', Inl err)
                    | (io', Inr ds) \<Rightarrow>
                        (io', Inr \<lparr>name = sc_name stage_config, parent_name = parent,
                                   disable_logs = sc_disable_logs stage_config,
                                   preload = preload_v, dataset = cls, datasets = ds,
                                   batch_size =
                                     (case cfg_batch_size cfg of None \<Rightarrow> 1 | Some b \<Rightarrow> b)\<rparr>))))"

definition get_datasets ::
  "('s, 'l) TorchVisionDataset \<Rightarrow> (string \<times> ('s, 'l) dataset) list" where
  "get_datasets self = datasets self"

text \<open>
  \<^verbatim>\<open>get_num_batches\<close>: the comprehension over \<^verbatim>\<open>self.datasets.items()\<close>; \<^verbatim>\<open>//\<close> is
  floor division and raises \<open>ZeroDivisionError\<close> on a zero divisor.
\<close>

fun num_batches_loop ::
  "int \<Rightarrow> (string \<times> ('s, 'l) dataset) list \<Rightarrow> (string \<times> int) list \<Rightarrow>
   error + (string \<times> int) list" where
  "num_batches_loop bs [] acc = Inr acc"
| "num_batches_loop bs ((k, v) # items) acc =
     (if bs = 0 then Inl ZeroDivisionError
      else num_batches_loop bs items (AList.update k (int (dataset_len v) div bs) acc))"

definition get_num_batches ::
  "('s, 'l) TorchVisionDataset \<Rightarrow> error + (string \<times> int) list" where
  "get_num_batches self = num_batches_loop (batch_size self) (datasets self) []"

text \<open>
  The body of the loop of \<^verbatim>\<open>prepare\<close> for one entry: read the transform, set the
  collection's transform to \<^verbatim>\<open>None\<close>, and build the cache from the collection so
  changed and the transform read.
\<close>

definition preload_entry ::
  "('s, 'l) dataset \<Rightarrow> error + ('s, 'l) PreloadedDataset" where
  "preload_entry d =
     (let t = dataset_transform d;
          d' = dataset_set_transform d None
      in PreloadedDataset_init d' t)"

fun prepare_loop ::
  "string list \<Rightarrow> (string \<times> ('s, 'l) dataset) list \<Rightarrow>
   error + (string \<times> ('s, 'l) dataset) list" where
  "prepare_loop [] ds = Inr ds"
| "prepare_loop (key # keys) ds =
     (case map_of ds key of
        None \<Rightarrow> Inl KeyError
      | Some d \<Rightarrow>
          (case preload_entry d of
             Inl e \<Rightarrow> Inl e
           | Inr c \<Rightarrow> prepare_loop keys (AList.update key (Preloaded c) ds)))"

text \<open>
  \<^verbatim>\<open>TorchVisionDataset.prepare\<close>. Modelled from the spec: \<^verbatim>\<open>Stage.prepare\<close>, which
  it calls first, and the \<^verbatim>\<open>log_phase\<close> decorator are not part of the source at
  hand; they change no field of the stage.
\<close>

definition prepare ::
  "('s, 'l) TorchVisionDataset \<Rightarrow> error + ('s, 'l) TorchVisionDataset" where
  "prepare self =
     (if \<not> preload self then Inr self
      else (case prepare_loop (map fst (datasets self)) (datasets self) of
              Inl e \<Rightarrow> Inl e
            | Inr ds \<Rightarrow> Inr (self\<lparr>datasets := ds\<rparr>)))"

section \<open>The run loop\<close>

text \<open>
  A queue holds payloads and the termination sentinel; a queue is the list of its
  pending records, oldest first.
\<close>

datatype 'a queue_record = Payload 'a | Sentinel

type_synonym log_event = "string \<times> string \<times> string \<times> string"

record 'a queues =
  input_queues :: "'a queue_record list list"
  output_queues :: "'a queue_record list list"
  events :: "log_event list"

text \<open>
  Modelled from the spec: \<^verbatim>\<open>Stage.get_next_from_queues\<close> is not part of the source
  at hand. It fetches the next record from all configured input queues, one record
  per queue, blocking if necessary. The result is \<open>None\<close> when a queue is empty, which
  is where the call blocks; the queues before it have given their record by then.
\<close>

fun get_next_from_queues ::
  "'a queue_record list list \<Rightarrow> 'a queue_record list option \<times> 'a queue_record list list" where
  "get_next_from_queues [] = (Some [], [])"
| "get_next_from_queues ([] # qs) = (None, [] # qs)"
| "get_next_from_queues ((r # q) # qs) =
     (case get_next_from_queues qs of
        (None, qs') \<Rightarrow> (None, q # qs')
      | (Some rs, qs') \<Rightarrow> (Some (r # rs), q # qs'))"

text \<open>
  Modelled from the spec: \<^verbatim>\<open>Stage.is_done\<close> is not part of the source at hand. It
  holds if any fetched record is the termination sentinel.
\<close>

definition is_done :: "'a queue_record list \<Rightarrow> bool" where
  "is_done inputs = list_ex (\<lambda>r. r = Sentinel) inputs"

text \<open>
  Modelled from the spec: \<^verbatim>\<open>Stage.push_to_output\<close> is not part of the source at
  hand. It pushes the record to every downstream output queue.
\<close>

definition push_to_output :: "'a queue_record \<Rightarrow> 'a queues \<Rightarrow> 'a queues" where
  "push_to_output r qs = qs\<lparr>output_queues := map (\<lambda>q. q @ [r]) (output_queues qs)\<rparr>"

text \<open>
  Modelled from the spec: \<^verbatim>\<open>log_phase_single\<close> is not part of the source at hand.
  It emits one observability event and does not alter control flow.
\<close>

definition log_phase_single ::
  "string \<Rightarrow> string \<Rightarrow> string \<Rightarrow> string \<Rightarrow> 'a queues \<Rightarrow> 'a queues" where
  "log_phase_single parent stage phase event qs =
     qs\<lparr>events := events qs @ [(parent, stage, phase, event)]\<rparr>"

text \<open>\<^verbatim>\<open>list(inputs.values())[0]\<close>: \<open>IndexError\<close> when no queue is configured.\<close>

definition first_value :: "'a queue_record list \<Rightarrow> error + 'a queue_record" where
  "first_value inputs = list_getitem inputs 0"

datatype 'a run_result =
    Terminated "'a queues"
  | Blocked "'a queues"
  | Raised error "'a queues"

text \<open>
  \<^verbatim>\<open>TorchVisionDataset.run\<close>: the \<^verbatim>\<open>while True\<close> loop. It returns when the loop
  breaks, when a fetch blocks on an empty queue, or when an exception leaves it.
\<close>

function run :: "('s, 'l) TorchVisionDataset \<Rightarrow> 'a queues \<Rightarrow> 'a run_result" where
  "run self qs =
     (case get_next_from_queues (input_queues qs) of
        (None, rest) \<Rightarrow> Blocked (qs\<lparr>input_queues := rest\<rparr>)
      | (Some inputs, rest) \<Rightarrow>
          (let qs1 = qs\<lparr>input_queues := rest\<rparr> in
           if is_done inputs then
             (case first_value inputs of
                Inl e \<Rightarrow> Raised e qs1
              | Inr v \<Rightarrow> Terminated (push_to_output v qs1))
           else
             (let qs2 = (if \<not> disable_logs self
                         then log_phase_single (parent_name self) (name self) ''run'' ''start'' qs1
                         else qs1)
              in case first_value inputs of
                   Inl e \<Rightarrow> Raised e qs2
                 | Inr v \<Rightarrow>
                     (let qs3 = push_to_output v qs2;
                          qs4 = (if \<not> disable_logs self
                                 then log_phase_single (parent_name self) (name self) ''run'' ''end'' qs3
                                 else qs3)
                      in run self qs4))))"
  by pat_completeness auto
termination
  apply (relation "measure (\<lambda>(self, qs). length (hd (input_queues qs)))")
   apply simp
  subgoal for self qs
    by (cases "input_queues qs" rule: get_next_from_queues.cases)
       (auto simp: push_to_output_def log_phase_single_def first_value_def list_getitem_def
             split: prod.splits option.splits)
  done

declare run.simps [simp del]

section \<open>Example values\<close>

text \<open>
  A provider \<open>Example\<close> with ten items in each of the splits \<open>val\<close> and \<open>train\<close>, an
  environment in which nothing is downloaded yet and whose namespace also binds
  \<^verbatim>\<open>__name__\<close> to an object that cannot be called, a configuration, and the stage
  with given \<open>preload\<close>, \<open>datasets\<close> and \<open>batch_size\<close>, for the examples below.
\<close>

abbreviation example_provider :: "(nat, bool) provider" where
  "example_provider \<equiv>
     (\<lambda>root_dir split download.
        if split = ''val'' \<or> split = ''train'' then Inr (replicate 10 (0, True))
        else Inl ProviderError)"

abbreviation example_env :: "(nat, bool) env" where
  "example_env \<equiv>
     \<lparr>cwd = ''/work'', path_exists = (\<lambda>path. False),
      providers = (\<lambda>n. if n = ''Example'' then Some (Callable example_provider)
                       else if n = ''__name__'' then Some NotCallable else None),
      get_weight = (\<lambda>n. if n = ''DEFAULT'' then Some Suc else None),
      ToTensor = id\<rparr>"

abbreviation example_config :: "string option \<Rightarrow> int option \<Rightarrow> stage_config" where
  "example_config dataset_name bs \<equiv>
     \<lparr>sc_name = ''dataset'', sc_disable_logs = False,
      sc_config = Some \<lparr>cfg_preload = None, cfg_dataset_name = dataset_name,
                         cfg_split = None, cfg_weights = None, cfg_batch_size = bs\<rparr>\<rparr>"

abbreviation example_stage ::
  "bool \<Rightarrow> (string \<times> (nat, bool) dataset) list \<Rightarrow> int \<Rightarrow> (nat, bool) TorchVisionDataset" where
  "example_stage pre ds bs \<equiv>
     \<lparr>name = ''dataset'', parent_name = ''pipeline'', disable_logs = False, preload = pre,
      dataset = Callable example_provider, datasets = ds, batch_size = bs\<rparr>"

section \<open>Properties of the preloaded cache\<close>

lemma list_getitem_in_range:
  "0 \<le> i \<Longrightarrow> i < int (length xs) \<Longrightarrow> list_getitem xs i = Inr (xs ! nat i)"
  by (simp add: list_getitem_def)

lemma list_getitem_negative:
  "- int (length xs) \<le> i \<Longrightarrow> i < 0 \<Longrightarrow>
     list_getitem xs i = Inr (xs ! nat (i + int (length xs)))"
  by (simp add: list_getitem_def)

lemma list_getitem_outside:
  "i < - int (length xs) \<or> int (length xs) \<le> i \<Longrightarrow> list_getitem xs i = Inl IndexError"
  by (auto simp: list_getitem_def)

lemma preload_loop_reads:
  "(\<And>i. i \<in> set idxs \<Longrightarrow> dataset_getitem ds (int i) = Inr (f i)) \<Longrightarrow>
     preload_loop ds idxs acc = Inr (acc @ map f idxs)"
  by (induction idxs arbitrary: acc) simp_all

lemma preload_loop_fails:
  "i \<in> set idxs \<Longrightarrow> dataset_getitem ds (int i) = Inl e \<Longrightarrow>
   (\<And>j. j \<in> set idxs \<Longrightarrow> dataset_getitem ds (int j) = Inl e \<or>
        (\<exists>p. dataset_getitem ds (int j) = Inr p)) \<Longrightarrow>
     preload_loop ds idxs acc = Inl e"
proof (induction idxs arbitrary: acc)
  case Nil
  then show ?case by simp
next
  case (Cons a idxs)
  show ?case
  proof (cases "dataset_getitem ds (int a)")
    case (Inl e')
    with Cons.prems(3) [of a] show ?thesis by auto
  next
    case (Inr p)
    with Cons.prems have "i \<in> set idxs" by auto
    with Cons Inr show ?thesis by auto
  qed
qed

lemma PreloadedDataset_init_reads:
  assumes "\<And>i. i < dataset_len ds \<Longrightarrow> dataset_getitem ds (int i) = Inr (f i)"
  shows "PreloadedDataset_init ds t =
           Inr \<lparr>transform = t, data = map f [0 ..< dataset_len ds]\<rparr>"
  using preload_loop_reads [of "[0 ..< dataset_len ds]" ds f "[]"] assms
  by (simp add: PreloadedDataset_init_def)

text \<open>
  Claim C2. For every source collection whose reads succeed, every transform \<open>T\<close> and
  every index \<open>i\<close> with \<open>0 \<le> i < len(source)\<close>, the cache constructed as
  \<^verbatim>\<open>PreloadedDataset(source, T)\<close> exists and answers \<open>get(i)\<close> with
  \<open>(T(sample), label)\<close> where \<open>(sample, label) = source.get(i)\<close>. Construction copies
  each pair as the source returns it, without applying \<open>T\<close>; the cache keeps \<open>T\<close> and
  applies it at every read.
\<close>

theorem PreloadedDataset_preload_equivalence:
  assumes "\<forall>j < dataset_len source. \<exists>p. dataset_getitem source (int j) = Inr p"
  shows "\<exists>cache. PreloadedDataset_init source (Some T) = Inr cache \<and>
           transform cache = Some T \<and>
           PreloadedDataset_len cache = dataset_len source \<and>
           map Inr (data cache) =
             map (\<lambda>j. dataset_getitem source (int j)) [0 ..< dataset_len source] \<and>
           (\<forall>i. 0 \<le> i \<and> i < int (dataset_len source) \<longrightarrow>
              (\<exists>sample label. dataset_getitem source i = Inr (sample, label) \<and>
                 PreloadedDataset_getitem cache i = Inr (T sample, label)))"
proof -
  define f where "f = (\<lambda>j. projr (dataset_getitem source (int j)))"
  have reads: "dataset_getitem source (int j) = Inr (f j)" if "j < dataset_len source" for j
    using assms that by (auto simp: f_def)
  let ?cache = "\<lparr>transform = Some T, data = map f [0 ..< dataset_len source]\<rparr>"
  have init: "PreloadedDataset_init source (Some T) = Inr ?cache"
    using reads by (rule PreloadedDataset_init_reads)
  have copies: "map Inr (data ?cache) =
      map (\<lambda>j. dataset_getitem source (int j)) [0 ..< dataset_len source]"
    using reads by simp
  have gets: "\<exists>sample label. dataset_getitem source i = Inr (sample, label) \<and>
      PreloadedDataset_getitem ?cache i = Inr (T sample, label)"
    if "0 \<le> i" "i < int (dataset_len source)" for i
  proof -
    obtain sample label where sl: "f (nat i) = (sample, label)" by (cases "f (nat i)")
    have "dataset_getitem source i = Inr (sample, label)"
      using reads [of "nat i"] that sl by simp
    moreover have "PreloadedDataset_getitem ?cache i = Inr (T sample, label)"
      using that sl
      by (simp add: PreloadedDataset_getitem_def list_getitem_in_range call_transform_def)
    ultimately show ?thesis by blast
  qed
  show ?thesis
    using init copies gets by (intro exI [of _ ?cache]) (simp add: PreloadedDataset_len_def)
qed

theorem PreloadedDataset_preload_equivalence_witness:
  "dataset_getitem
     (Provided \<lparr>ic_transform = None, ic_items = [(1::nat, True), (2, False)]\<rparr>) 0 =
     Inr (1, True) \<and>
   dataset_getitem
     (Provided \<lparr>ic_transform = None, ic_items = [(1::nat, True), (2, False)]\<rparr>) 1 =
     Inr (2, False) \<and>
   PreloadedDataset_init
     (Provided \<lparr>ic_transform = None, ic_items = [(1::nat, True), (2, False)]\<rparr>)
     (Some Suc) = Inr \<lparr>transform = Some Suc, data = [(1, True), (2, False)]\<rparr> \<and>
   PreloadedDataset_getitem \<lparr>transform = Some Suc, data = [(1::nat, True), (2, False)]\<rparr> 1 =
     Inr (3, False)"
proof -
  let ?src = "Provided \<lparr>ic_transform = None, ic_items = [(1::nat, True), (2, False)]\<rparr>"
  have len: "dataset_len ?src = 2" by (simp add: IndexedCollection_len_def)
  have r0: "dataset_getitem ?src 0 = Inr (1, True)"
    by (simp add: IndexedCollection_getitem_def list_getitem_def)
  have r1: "dataset_getitem ?src 1 = Inr (2, False)"
    by (simp add: IndexedCollection_getitem_def list_getitem_def)
  have h: "\<forall>j < dataset_len ?src. \<exists>p. dataset_getitem ?src (int j) = Inr p"
  proof (intro allI impI)
    fix j assume "j < dataset_len ?src"
    then have "j = 0 \<or> j = 1" using len by auto
    then show "\<exists>p. dataset_getitem ?src (int j) = Inr p" using r0 r1 by auto
  qed
  from PreloadedDataset_preload_equivalence [OF h, of Suc]
  obtain cache where c: "PreloadedDataset_init ?src (Some Suc) = Inr cache"
    and t: "transform cache = Some Suc"
    and m: "map Inr (data cache) = map (\<lambda>j. dataset_getitem ?src (int j)) [0 ..< dataset_len ?src]"
    and g: "\<forall>i. 0 \<le> i \<and> i < int (dataset_len ?src) \<longrightarrow>
              (\<exists>sample label. dataset_getitem ?src i = Inr (sample, label) \<and>
                 PreloadedDataset_getitem cache i = Inr (Suc sample, label))"
    by blast
  have up: "[0 ..< 2] = [0, Suc 0]" by (simp add: upt_rec)
  have "map (\<lambda>j. dataset_getitem ?src (int j)) [0 ..< dataset_len ?src] =
          [Inr (1, True), Inr (2, False)]"
    unfolding len up using r0 r1 by (simp del: dataset_getitem.simps dataset_len.simps)
  with m have "map Inr (data cache) = [Inr (1, True), Inr (2, False) :: error + nat \<times> bool]"
    by simp
  then have d: "data cache = [(1, True), (2, False)]"
    by (auto simp: map_eq_Cons_conv)
  from t d have cache: "cache = \<lparr>transform = Some Suc, data = [(1, True), (2, False)]\<rparr>"
    by (cases cache) simp
  have "PreloadedDataset_getitem cache 1 = Inr (3, False)"
    using g [rule_format, of 1] r1 len by auto
  with r0 r1 c cache show ?thesis by simp
qed

text \<open>
  Claim C9, as amended. For a cache of length \<open>n\<close>, \<open>get(index)\<close> fails with
  \<open>IndexError\<close> exactly for \<open>index < -n\<close> and for \<open>index \<ge> n\<close>. For
  \<open>0 \<le> index < n\<close> it returns \<open>(transform(sample), label)\<close> of the pair at
  \<open>index\<close>, and for \<open>-n \<le> index < 0\<close> that of the pair at \<open>index + n\<close>, since a
  Python list counts a negative index from the end.
\<close>

theorem PreloadedDataset_getitem_python_index:
  "(index < - int (PreloadedDataset_len self) \<or> int (PreloadedDataset_len self) \<le> index \<longrightarrow>
      PreloadedDataset_getitem self index = Inl IndexError) \<and>
   (transform self = Some T \<and> 0 \<le> index \<and> index < int (PreloadedDataset_len self) \<longrightarrow>
      PreloadedDataset_getitem self index =
        Inr (T (fst (data self ! nat index)), snd (data self ! nat index))) \<and>
   (transform self = Some T \<and> - int (PreloadedDataset_len self) \<le> index \<and> index < 0 \<longrightarrow>
      PreloadedDataset_getitem self index =
        Inr (T (fst (data self ! nat (index + int (PreloadedDataset_len self)))),
             snd (data self ! nat (index + int (PreloadedDataset_len self)))))"
  by (auto simp: PreloadedDataset_getitem_def PreloadedDataset_len_def call_transform_def
        list_getitem_in_range list_getitem_negative list_getitem_outside
        split: prod.splits)

theorem PreloadedDataset_getitem_python_index_witness:
  "PreloadedDataset_getitem \<lparr>transform = Some Suc, data = [(5::nat, True), (7, False)]\<rparr> 2 =
     Inl IndexError \<and>
   PreloadedDataset_getitem \<lparr>transform = Some Suc, data = [(5::nat, True), (7, False)]\<rparr> (- 3) =
     Inl IndexError \<and>
   PreloadedDataset_getitem \<lparr>transform = Some Suc, data = [(5::nat, True), (7, False)]\<rparr> 1 =
     Inr (8, False) \<and>
   PreloadedDataset_getitem \<lparr>transform = Some Suc, data = [(5::nat, True), (7, False)]\<rparr> (- 2) =
     Inr (6, True)"
  using PreloadedDataset_getitem_python_index
          [of 2 "\<lparr>transform = Some Suc, data = [(5::nat, True), (7, False)]\<rparr>" Suc]
        PreloadedDataset_getitem_python_index
          [of "- 3" "\<lparr>transform = Some Suc, data = [(5::nat, True), (7, False)]\<rparr>" Suc]
        PreloadedDataset_getitem_python_index
          [of 1 "\<lparr>transform = Some Suc, data = [(5::nat, True), (7, False)]\<rparr>" Suc]
        PreloadedDataset_getitem_python_index
          [of "- 2" "\<lparr>transform = Some Suc, data = [(5::nat, True), (7, False)]\<rparr>" Suc]
  by (simp add: PreloadedDataset_len_def)

text \<open>
  The claim as first stated asks for \<open>IndexError\<close> at every negative index. On a cache
  of length 1 the index \<open>-1\<close> reads the only pair.
\<close>

theorem PreloadedDataset_getitem_negative_counterexample:
  "PreloadedDataset_getitem \<lparr>transform = Some Suc, data = [(5::nat, True)]\<rparr> (- 1) =
     Inr (6, True)"
  by (simp add: PreloadedDataset_getitem_def list_getitem_def call_transform_def)

lemma preload_entry_Provided:
  "preload_entry (Provided c) = Inr \<lparr>transform = ic_transform c, data = ic_items c\<rparr>"
proof -
  let ?d = "Provided (c\<lparr>ic_transform := None\<rparr>)"
  have "dataset_getitem ?d (int i) = Inr (ic_items c ! i)" if "i < dataset_len ?d" for i
    using that
    by (simp add: IndexedCollection_getitem_def IndexedCollection_len_def
          list_getitem_in_range split: prod.splits)
  from PreloadedDataset_init_reads [of ?d "\<lambda>i. ic_items c ! i", OF this]
  show ?thesis
    by (simp add: preload_entry_def IndexedCollection_len_def map_nth)
qed

lemma preload_entry_Preloaded:
  "preload_entry (Preloaded p) =
     (if data p = [] then Inr \<lparr>transform = transform p, data = []\<rparr> else Inl TypeError)"
proof (cases "data p")
  case Nil
  then show ?thesis
    by (simp add: preload_entry_def PreloadedDataset_init_def PreloadedDataset_len_def)
next
  case (Cons a as)
  let ?d = "Preloaded (p\<lparr>transform := None\<rparr>)"
  have len: "dataset_len ?d = Suc (length as)"
    using Cons by (simp add: PreloadedDataset_len_def)
  have up: "[0 ..< Suc (length as)] = 0 # [Suc 0 ..< Suc (length as)]"
    by (rule upt_conv_Cons) simp
  have read: "dataset_getitem ?d (int 0) = Inl TypeError"
    using Cons
    by (simp add: PreloadedDataset_getitem_def list_getitem_def call_transform_def
          split: prod.splits)
  have "preload_loop ?d [0 ..< dataset_len ?d] [] = Inl TypeError"
    unfolding len up using read by (simp del: dataset_getitem.simps)
  then show ?thesis
    using Cons by (simp add: preload_entry_def PreloadedDataset_init_def)
qed

lemma map_of_middle:
  "k \<notin> fst ` set xs \<Longrightarrow> map_of (xs @ (k, d) # ys) k = Some d"
  by (induction xs) auto

lemma update_middle:
  "k \<notin> fst ` set xs \<Longrightarrow> AList.update k v (xs @ (k, d) # ys) = xs @ (k, v) # ys"
  by (induction xs) auto

lemma prepare_loop_step:
  "k \<notin> fst ` set xs \<Longrightarrow>
     prepare_loop (k # keys) (xs @ (k, d) # ys) =
       (case preload_entry d of
          Inl e \<Rightarrow> Inl e
        | Inr c \<Rightarrow> prepare_loop keys (xs @ (k, Preloaded c) # ys))"
  by (simp add: map_of_middle update_middle del: map_of_append split: sum.splits)

lemma prepare_loop_all:
  "distinct (map fst (xs @ ys)) \<Longrightarrow>
   (\<And>k d. (k, d) \<in> set ys \<Longrightarrow> preload_entry d = Inr (f d)) \<Longrightarrow>
     prepare_loop (map fst ys) (xs @ ys) = Inr (xs @ map (\<lambda>(k, d). (k, Preloaded (f d))) ys)"
proof (induction ys arbitrary: xs)
  case Nil
  then show ?case by simp
next
  case (Cons y ys)
  obtain k d where y: "y = (k, d)" by (cases y)
  have notin: "k \<notin> fst ` set xs" using Cons.prems(1) y by auto
  have pe: "preload_entry d = Inr (f d)" using Cons.prems(2) [of k d] y by simp
  have dist: "distinct (map fst ((xs @ [(k, Preloaded (f d))]) @ ys))"
    using Cons.prems(1) y by auto
  have "prepare_loop (map fst ys) ((xs @ [(k, Preloaded (f d))]) @ ys) =
          Inr ((xs @ [(k, Preloaded (f d))]) @ map (\<lambda>(k, d). (k, Preloaded (f d))) ys)"
    using Cons.prems(2) by (intro Cons.IH [OF dist]) auto
  then show ?case
    using notin pe y by (simp add: prepare_loop_step del: prepare_loop.simps)
qed

lemma prepare_loop_fails:
  "distinct (map fst (xs @ ys)) \<Longrightarrow>
   (\<And>k d. (k, d) \<in> set ys \<Longrightarrow> preload_entry d = Inl e \<or> (\<exists>c. preload_entry d = Inr c)) \<Longrightarrow>
   (\<exists>(k, d) \<in> set ys. preload_entry d = Inl e) \<Longrightarrow>
     prepare_loop (map fst ys) (xs @ ys) = Inl e"
proof (induction ys arbitrary: xs)
  case Nil
  then show ?case by simp
next
  case (Cons y ys)
  obtain k d where y: "y = (k, d)" by (cases y)
  have notin: "k \<notin> fst ` set xs" using Cons.prems(1) y by auto
  show ?case
  proof (cases "preload_entry d")
    case (Inl e')
    then have "e' = e" using Cons.prems(2) [of k d] y by auto
    with Inl notin y show ?thesis by (simp add: prepare_loop_step del: prepare_loop.simps)
  next
    case (Inr c)
    have dist: "distinct (map fst ((xs @ [(k, Preloaded c)]) @ ys))"
      using Cons.prems(1) y by auto
    have ex: "\<exists>(k, d) \<in> set ys. preload_entry d = Inl e"
      using Cons.prems(3) Inr y by auto
    have "prepare_loop (map fst ys) ((xs @ [(k, Preloaded c)]) @ ys) = Inl e"
      using Cons.prems(2) ex by (intro Cons.IH [OF dist]) auto
    then show ?thesis
      using notin Inr y by (simp add: prepare_loop_step del: prepare_loop.simps)
  qed
qed

lemma prepare_loop_Inr:
  "distinct (map fst (xs @ ys)) \<Longrightarrow> prepare_loop (map fst ys) (xs @ ys) = Inr r \<Longrightarrow>
     (\<exists>f. (\<forall>(k, d) \<in> set ys. preload_entry d = Inr (f d)) \<and>
          r = xs @ map (\<lambda>(k, d). (k, Preloaded (f d))) ys)"
proof (induction ys arbitrary: xs)
  case Nil
  then show ?case by simp
next
  case (Cons y ys)
  obtain k d where y: "y = (k, d)" by (cases y)
  have notin: "k \<notin> fst ` set xs" using Cons.prems(1) y by auto
  from Cons.prems(2) notin y obtain c where c: "preload_entry d = Inr c"
    and rest: "prepare_loop (map fst ys) ((xs @ [(k, Preloaded c)]) @ ys) = Inr r"
    by (auto simp: prepare_loop_step simp del: prepare_loop.simps split: sum.splits)
  have dist: "distinct (map fst ((xs @ [(k, Preloaded c)]) @ ys))"
    using Cons.prems(1) y by auto
  from Cons.IH [OF dist rest] obtain f
    where f: "\<forall>(k, d) \<in> set ys. preload_entry d = Inr (f d)"
      and r: "r = (xs @ [(k, Preloaded c)]) @ map (\<lambda>(k, d). (k, Preloaded (f d))) ys"
    by blast
  let ?g = "\<lambda>d. projr (preload_entry d)"
  have "\<forall>(k, d) \<in> set (y # ys). preload_entry d = Inr (?g d)"
    using f c y by auto
  moreover have "r = xs @ map (\<lambda>(k, d). (k, Preloaded (?g d))) (y # ys)"
    using r f c y by auto
  ultimately show ?case by (intro exI [of _ ?g] conjI)
qed

lemma map_fst_entries: "map fst (map (\<lambda>(k, d). (k, g d)) xs) = map fst xs"
  by (induction xs) auto

lemma prepare_preload:
  assumes "preload self" "distinct (map fst (datasets self))"
    and "\<And>k d. (k, d) \<in> set (datasets self) \<Longrightarrow> preload_entry d = Inr (f d)"
  shows "prepare self =
           Inr (self\<lparr>datasets := map (\<lambda>(k, d). (k, Preloaded (f d))) (datasets self)\<rparr>)"
  using prepare_loop_all [of "[]" "datasets self" f] assms
  by (simp add: prepare_def)

section \<open>Properties of \<open>prepare\<close>\<close>

text \<open>
  Claim C4. On a stage whose entries are the provider's collections that \<^verbatim>\<open>__init__\<close>
  built, one call of \<^verbatim>\<open>prepare\<close> with \<open>preload\<close> true succeeds and replaces, for
  every split key, the entry by the cache constructed from that collection, its
  transform set to \<open>None\<close> first, and the transform read from it before: the cache
  holds the raw items and the detached transform. The keys and their order stay. With
  \<open>preload\<close> false, \<^verbatim>\<open>prepare\<close> returns the stage unchanged.
\<close>

theorem prepare_replaces_every_entry:
  assumes "distinct (map fst (datasets self))"
    and "\<forall>(k, d) \<in> set (datasets self). \<exists>c. d = Provided c"
  shows "(\<not> preload self \<longrightarrow> prepare self = Inr self) \<and>
         (preload self \<longrightarrow>
            (\<exists>ds'. prepare self = Inr (self\<lparr>datasets := ds'\<rparr>) \<and>
               map fst ds' = map fst (datasets self) \<and>
               (\<forall>(k, d) \<in> set (datasets self).
                  \<exists>c. d = Provided c \<and>
                    PreloadedDataset_init (Provided (c\<lparr>ic_transform := None\<rparr>)) (ic_transform c) =
                      Inr \<lparr>transform = ic_transform c, data = ic_items c\<rparr> \<and>
                    map_of ds' k =
                      Some (Preloaded \<lparr>transform = ic_transform c, data = ic_items c\<rparr>))))"
proof (intro conjI impI)
  assume "\<not> preload self"
  then show "prepare self = Inr self" by (simp add: prepare_def)
next
  assume pre: "preload self"
  define f :: "('a, 'b) dataset \<Rightarrow> ('a, 'b) PreloadedDataset"
    where "f = (\<lambda>d. \<lparr>transform = dataset_transform d,
                      data = (case d of Provided c \<Rightarrow> ic_items c | Preloaded p \<Rightarrow> [])\<rparr>)"
  let ?ds' = "map (\<lambda>(k, d). (k, Preloaded (f d))) (datasets self)"
  have entry: "preload_entry d = Inr (f d)" if "(k, d) \<in> set (datasets self)" for k d
    using assms(2) that by (auto simp: f_def preload_entry_Provided)
  have run: "prepare self = Inr (self\<lparr>datasets := ?ds'\<rparr>)"
    using pre assms(1) entry by (rule prepare_preload)
  have keys: "map fst ?ds' = map fst (datasets self)"
    by (rule map_fst_entries)
  have each: "\<exists>c. d = Provided c \<and>
      PreloadedDataset_init (Provided (c\<lparr>ic_transform := None\<rparr>)) (ic_transform c) =
        Inr \<lparr>transform = ic_transform c, data = ic_items c\<rparr> \<and>
      map_of ?ds' k = Some (Preloaded \<lparr>transform = ic_transform c, data = ic_items c\<rparr>)"
    if kd: "(k, d) \<in> set (datasets self)" for k d
  proof -
    from assms(2) kd obtain c where c: "d = Provided c" by auto
    have "(k, Preloaded (f d)) \<in> set ?ds'" using kd by force
    moreover have "distinct (map fst ?ds')" using assms(1) by (simp only: keys)
    ultimately have "map_of ?ds' k = Some (Preloaded (f d))" by simp
    moreover have "PreloadedDataset_init (Provided (c\<lparr>ic_transform := None\<rparr>)) (ic_transform c) =
        Inr \<lparr>transform = ic_transform c, data = ic_items c\<rparr>"
      using preload_entry_Provided [of c] by (simp add: preload_entry_def)
    ultimately show ?thesis using c by (simp add: f_def)
  qed
  show "\<exists>ds'. prepare self = Inr (self\<lparr>datasets := ds'\<rparr>) \<and>
               map fst ds' = map fst (datasets self) \<and>
               (\<forall>(k, d) \<in> set (datasets self).
                  \<exists>c. d = Provided c \<and>
                    PreloadedDataset_init (Provided (c\<lparr>ic_transform := None\<rparr>)) (ic_transform c) =
                      Inr \<lparr>transform = ic_transform c, data = ic_items c\<rparr> \<and>
                    map_of ds' k =
                      Some (Preloaded \<lparr>transform = ic_transform c, data = ic_items c\<rparr>))"
    using run keys each by (intro exI [of _ ?ds']) auto
qed

theorem prepare_replaces_every_entry_witness:
  "distinct (map fst [(''val'', Provided \<lparr>ic_transform = Some Suc, ic_items = [(1::nat, True)]\<rparr>)]) \<and>
   prepare (example_stage False
              [(''val'', Provided \<lparr>ic_transform = Some Suc, ic_items = [(1, True)]\<rparr>)] 1) =
     Inr (example_stage False
            [(''val'', Provided \<lparr>ic_transform = Some Suc, ic_items = [(1, True)]\<rparr>)] 1) \<and>
   prepare (example_stage True
              [(''val'', Provided \<lparr>ic_transform = Some Suc, ic_items = [(1, True)]\<rparr>)] 1) =
     Inr (example_stage True
            [(''val'', Preloaded \<lparr>transform = Some Suc, data = [(1, True)]\<rparr>)] 1)"
proof -
  let ?ds = "[(''val'', Provided \<lparr>ic_transform = Some Suc, ic_items = [(1::nat, True)]\<rparr>)]"
  have h1: "distinct (map fst ?ds)" by simp
  have h2: "\<forall>(k, d) \<in> set ?ds. \<exists>c. d = Provided c" by simp
  have off: "prepare (example_stage False ?ds 1) = Inr (example_stage False ?ds 1)"
    using prepare_replaces_every_entry [of "example_stage False ?ds 1"] by simp
  from prepare_replaces_every_entry [of "example_stage True ?ds 1"]
  obtain ds' where p: "prepare (example_stage True ?ds 1) = Inr (example_stage True ds' 1)"
    and k: "map fst ds' = [''val'']"
    and m: "map_of ds' ''val'' = Some (Preloaded \<lparr>transform = Some Suc, data = [(1, True)]\<rparr>)"
    by auto
  from k obtain v where "ds' = [(''val'', v)]"
    by (cases ds') auto
  with m have "ds' = [(''val'', Preloaded \<lparr>transform = Some Suc, data = [(1, True)]\<rparr>)]"
    by simp
  with p h1 off show ?thesis by simp
qed

lemma second_prepare:
  assumes "preload self" "distinct (map fst (datasets self))" "prepare self = Inr self'"
  shows "prepare self' =
           (if \<exists>(k, d) \<in> set (datasets self'). dataset_len d \<noteq> 0
            then Inl TypeError else Inr self')"
proof -
  from assms obtain ds where loop: "prepare_loop (map fst (datasets self)) ([] @ datasets self) = Inr ds"
    and self': "self' = self\<lparr>datasets := ds\<rparr>"
    by (auto simp: prepare_def split: sum.splits)
  from prepare_loop_Inr [OF _ loop] assms(2) self' obtain f
    where ds': "datasets self' = map (\<lambda>(k, d). (k, Preloaded (f d))) (datasets self)"
    by auto
  have pre': "preload self'" using self' assms(1) by simp
  have dist': "distinct (map fst (datasets self'))"
    using assms(2) unfolding ds' by (simp only: map_fst_entries)
  have entries: "\<exists>p. d = Preloaded p" if "(k, d) \<in> set (datasets self')" for k d
    using that by (auto simp: ds')
  show ?thesis
  proof (cases "\<exists>(k, d) \<in> set (datasets self'). dataset_len d \<noteq> 0")
    case True
    have "prepare_loop (map fst (datasets self')) ([] @ datasets self') = Inl TypeError"
    proof (rule prepare_loop_fails)
      show "distinct (map fst ([] @ datasets self'))" using dist' by simp
      show "preload_entry d = Inl TypeError \<or> (\<exists>c. preload_entry d = Inr c)"
        if "(k, d) \<in> set (datasets self')" for k d
        using entries [OF that] by (auto simp: preload_entry_Preloaded)
      show "\<exists>(k, d) \<in> set (datasets self'). preload_entry d = Inl TypeError"
      proof -
        from True obtain k d where kd: "(k, d) \<in> set (datasets self')" "dataset_len d \<noteq> 0"
          by auto
        from entries [OF kd(1)] kd(2) have "preload_entry d = Inl TypeError"
          by (auto simp: preload_entry_Preloaded PreloadedDataset_len_def)
        with kd(1) show ?thesis by auto
      qed
    qed
    with True pre' show ?thesis by (simp add: prepare_def)
  next
    case False
    have same: "preload_entry d = Inr (case d of Preloaded p \<Rightarrow> p)"
      if "(k, d) \<in> set (datasets self')" for k d
      using entries [OF that] False that
      by (auto simp: preload_entry_Preloaded PreloadedDataset_len_def)
    have "prepare self' = Inr (self'\<lparr>datasets :=
        map (\<lambda>(k, d). (k, Preloaded (case d of Preloaded p \<Rightarrow> p))) (datasets self')\<rparr>)"
      using pre' dist' same by (rule prepare_preload)
    moreover have "map (\<lambda>(k, d). (k, Preloaded (case d of Preloaded p \<Rightarrow> p))) (datasets self') =
        datasets self'"
    proof (intro map_idI)
      fix x assume x: "x \<in> set (datasets self')"
      obtain k d where kd: "x = (k, d)" by (cases x)
      with entries [of k d] x obtain p where "d = Preloaded p" by auto
      with kd show "(case x of (k, d) \<Rightarrow> (k, Preloaded (case d of Preloaded p \<Rightarrow> p))) = x"
        by simp
    qed
    ultimately show ?thesis using False by simp
  qed
qed

text \<open>
  Claim C10, as amended. A cache constructed with the transform \<open>None\<close> serves no read:
  for every index in \<open>-n \<le> index < n\<close>, \<open>get(index)\<close> fails with \<open>TypeError\<close>, because
  the transform is called without a test for \<open>None\<close>. A second \<^verbatim>\<open>prepare\<close> with
  \<open>preload\<close> true sets each cache's transform to \<open>None\<close> and reads it again: it fails
  with \<open>TypeError\<close> when the cache of some split is not empty, and returns the stage
  unchanged when every cache is empty.
\<close>

theorem PreloadedDataset_without_transform:
  "(PreloadedDataset_init source None = Inr cache \<and>
    - int (PreloadedDataset_len cache) \<le> index \<and> index < int (PreloadedDataset_len cache) \<longrightarrow>
      PreloadedDataset_getitem cache index = Inl TypeError) \<and>
   (preload self \<and> distinct (map fst (datasets self)) \<and> prepare self = Inr self' \<longrightarrow>
      prepare self' =
        (if \<exists>(k, d) \<in> set (datasets self'). dataset_len d \<noteq> 0
         then Inl TypeError else Inr self'))"
proof (intro conjI impI)
  assume a: "PreloadedDataset_init source None = Inr cache \<and>
    - int (PreloadedDataset_len cache) \<le> index \<and> index < int (PreloadedDataset_len cache)"
  then have t: "transform cache = None"
    by (auto simp: PreloadedDataset_init_def split: sum.splits)
  from a have "\<exists>p. list_getitem (data cache) index = Inr p"
    by (cases "0 \<le> index")
       (simp_all add: list_getitem_in_range list_getitem_negative PreloadedDataset_len_def)
  with t show "PreloadedDataset_getitem cache index = Inl TypeError"
    by (auto simp: PreloadedDataset_getitem_def call_transform_def)
next
  assume "preload self \<and> distinct (map fst (datasets self)) \<and> prepare self = Inr self'"
  then show "prepare self' =
        (if \<exists>(k, d) \<in> set (datasets self'). dataset_len d \<noteq> 0
         then Inl TypeError else Inr self')"
    using second_prepare [of self self'] by blast
qed

theorem PreloadedDataset_without_transform_witness:
  "PreloadedDataset_init (Provided \<lparr>ic_transform = None, ic_items = [(1::nat, True)]\<rparr>) None =
     Inr \<lparr>transform = None, data = [(1, True)]\<rparr> \<and>
   PreloadedDataset_getitem \<lparr>transform = None, data = [(1::nat, True)]\<rparr> 0 = Inl TypeError \<and>
   PreloadedDataset_getitem \<lparr>transform = None, data = [(1::nat, True)]\<rparr> (- 1) = Inl TypeError \<and>
   prepare (example_stage True
              [(''val'', Provided \<lparr>ic_transform = Some Suc, ic_items = [(1, True)]\<rparr>)] 1) =
     Inr (example_stage True
            [(''val'', Preloaded \<lparr>transform = Some Suc, data = [(1, True)]\<rparr>)] 1) \<and>
   prepare (example_stage True
              [(''val'', Preloaded \<lparr>transform = Some Suc, data = [(1, True)]\<rparr>)] 1) =
     Inl TypeError"
proof -
  let ?src = "Provided \<lparr>ic_transform = None, ic_items = [(1::nat, True)]\<rparr>"
  let ?cache = "\<lparr>transform = None, data = [(1::nat, True)]\<rparr>"
  let ?s0 = "example_stage True
               [(''val'', Provided \<lparr>ic_transform = Some Suc, ic_items = [(1, True)]\<rparr>)] 1"
  let ?s1 = "example_stage True
               [(''val'', Preloaded \<lparr>transform = Some Suc, data = [(1, True)]\<rparr>)] 1"
  have init: "PreloadedDataset_init ?src None = Inr ?cache"
    using preload_entry_Provided [of "\<lparr>ic_transform = None, ic_items = [(1::nat, True)]\<rparr>"]
    by (simp add: preload_entry_def)
  have first: "prepare ?s0 = Inr ?s1"
    by (simp add: prepare_def preload_entry_Provided)
  have g0: "PreloadedDataset_getitem ?cache 0 = Inl TypeError"
    using PreloadedDataset_without_transform
            [where source = ?src and cache = ?cache and index = 0, THEN conjunct1] init
    by (simp add: PreloadedDataset_len_def)
  have g1: "PreloadedDataset_getitem ?cache (- 1) = Inl TypeError"
    using PreloadedDataset_without_transform
            [where source = ?src and cache = ?cache and index = "- 1", THEN conjunct1] init
    by (simp add: PreloadedDataset_len_def)
  have second: "prepare ?s1 = Inl TypeError"
    using PreloadedDataset_without_transform
            [where self = ?s0 and self' = ?s1, THEN conjunct2] first
    by (simp add: PreloadedDataset_len_def)
  from init g0 g1 first second show ?thesis by simp
qed

text \<open>
  The claim as first stated lets the second \<^verbatim>\<open>prepare\<close> fail always. On a split
  with no item nothing is read, and the second call returns.
\<close>

theorem second_prepare_empty_counterexample:
  "prepare (example_stage True
              [(''val'', Provided \<lparr>ic_transform = Some Suc, ic_items = []\<rparr>)] 1) =
     Inr (example_stage True [(''val'', Preloaded \<lparr>transform = Some Suc, data = []\<rparr>)] 1) \<and>
   prepare (example_stage True [(''val'', Preloaded \<lparr>transform = Some Suc, data = []\<rparr>)] 1) =
     Inr (example_stage True [(''val'', Preloaded \<lparr>transform = Some Suc, data = []\<rparr>)] 1)"
  by (simp add: prepare_def preload_entry_Provided preload_entry_Preloaded)

section \<open>Properties of the constructor and of \<open>get_num_batches\<close>\<close>

lemma example_init:
  "TorchVisionDataset_init example_env (example_config (Some ''Example'') bs) ''pipeline'' =
     ([Getcwd, PathExists ''/work/data/Example'', ProviderCall ''data/Example'' ''val'' True],
      Inr (example_stage False
             [(''val'', Provided \<lparr>ic_transform = Some id, ic_items = replicate 10 (0, True)\<rparr>)]
             (case bs of None \<Rightarrow> 1 | Some b \<Rightarrow> b)))"
  by (simp add: TorchVisionDataset_init_def get_config_def)

text \<open>
  Claim C5. For every configuration in which \<open>dataset_name\<close> is absent, constructing the
  stage fails with the configuration error \<^verbatim>\<open>ValueError("Missing dataset name.")\<close>,
  and nothing outside the program has been reached by then: the trace is empty.
\<close>

theorem init_missing_dataset_name:
  "cfg_dataset_name (get_config stage_config) = None \<Longrightarrow>
     TorchVisionDataset_init e stage_config parent =
       ([], Inl (ValueError ''Missing dataset name.''))"
  by (simp add: TorchVisionDataset_init_def)

theorem init_missing_dataset_name_witness:
  "cfg_dataset_name (get_config (example_config None (Some 4))) = None \<and>
   TorchVisionDataset_init example_env (example_config None (Some 4)) ''pipeline'' =
     ([], Inl (ValueError ''Missing dataset name.''))"
  using init_missing_dataset_name [of "example_config None (Some 4)" example_env "''pipeline''"]
  by (simp add: get_config_def)

text \<open>
  Claim C6, as amended. For every configuration whose \<open>dataset_name\<close> has no entry in
  the namespace of providers, constructing the stage fails with the not-found error
  \<^verbatim>\<open>Exception("Could not find dataset ...")\<close>, before anything outside the program
  is reached. A name that the namespace binds to an object other than a provider passes
  the lookup: with no weights configured, the constructor probes the file system and
  then fails with \<open>TypeError\<close> at the first split, or returns a stage with no datasets
  when the list of splits is empty.
\<close>

theorem init_unknown_dataset:
  assumes "cfg_dataset_name (get_config stage_config) = Some dataset_name"
  shows "(providers e dataset_name = None \<longrightarrow>
            TorchVisionDataset_init e stage_config parent =
              ([], Inl (Exception (''Could not find dataset '' @ dataset_name @ ''.'')))) \<and>
         (providers e dataset_name = Some NotCallable \<and>
          cfg_weights (get_config stage_config) = None \<and>
          (case cfg_split (get_config stage_config) of None \<Rightarrow> [''val''] | Some s \<Rightarrow> s) \<noteq> [] \<longrightarrow>
            TorchVisionDataset_init e stage_config parent =
              ([Getcwd, PathExists (os_path_join (cwd e) [''data'', dataset_name])],
               Inl TypeError)) \<and>
         (providers e dataset_name = Some NotCallable \<and>
          cfg_weights (get_config stage_config) = None \<and>
          (case cfg_split (get_config stage_config) of None \<Rightarrow> [''val''] | Some s \<Rightarrow> s) = [] \<longrightarrow>
            (\<exists>self. TorchVisionDataset_init e stage_config parent =
               ([Getcwd, PathExists (os_path_join (cwd e) [''data'', dataset_name])], Inr self) \<and>
               dataset self = NotCallable \<and> datasets self = []))"
proof (intro conjI impI)
  assume "providers e dataset_name = None"
  with assms show "TorchVisionDataset_init e stage_config parent =
      ([], Inl (Exception (''Could not find dataset '' @ dataset_name @ ''.'')))"
    by (simp add: TorchVisionDataset_init_def)
next
  assume a: "providers e dataset_name = Some NotCallable \<and>
          cfg_weights (get_config stage_config) = None \<and>
          (case cfg_split (get_config stage_config) of None \<Rightarrow> [''val''] | Some s \<Rightarrow> s) \<noteq> []"
  then obtain x xs where
    "(case cfg_split (get_config stage_config) of None \<Rightarrow> [''val''] | Some s \<Rightarrow> s) = x # xs"
    by (cases "case cfg_split (get_config stage_config) of None \<Rightarrow> [''val''] | Some s \<Rightarrow> s") auto
  with a assms show "TorchVisionDataset_init e stage_config parent =
      ([Getcwd, PathExists (os_path_join (cwd e) [''data'', dataset_name])], Inl TypeError)"
    by (simp add: TorchVisionDataset_init_def Let_def del: os_path_join.simps)
next
  assume "providers e dataset_name = Some NotCallable \<and>
          cfg_weights (get_config stage_config) = None \<and>
          (case cfg_split (get_config stage_config) of None \<Rightarrow> [''val''] | Some s \<Rightarrow> s) = []"
  with assms show "\<exists>self. TorchVisionDataset_init e stage_config parent =
               ([Getcwd, PathExists (os_path_join (cwd e) [''data'', dataset_name])], Inr self) \<and>
               dataset self = NotCallable \<and> datasets self = []"
    by (simp add: TorchVisionDataset_init_def Let_def del: os_path_join.simps)
qed

theorem init_unknown_dataset_witness:
  "TorchVisionDataset_init example_env (example_config (Some ''Nowhere'') (Some 4)) ''pipeline'' =
     ([], Inl (Exception ''Could not find dataset Nowhere.'')) \<and>
   TorchVisionDataset_init example_env (example_config (Some ''__name__'') (Some 4)) ''pipeline'' =
     ([Getcwd, PathExists ''/work/data/__name__''], Inl TypeError) \<and>
   fst (TorchVisionDataset_init example_env
     \<lparr>sc_name = ''dataset'', sc_disable_logs = False,
      sc_config = Some \<lparr>cfg_preload = None, cfg_dataset_name = Some ''__name__'',
                         cfg_split = Some [], cfg_weights = None, cfg_batch_size = None\<rparr>\<rparr>
     ''pipeline'') = [Getcwd, PathExists ''/work/data/__name__''] \<and>
   isl (snd (TorchVisionDataset_init example_env
     \<lparr>sc_name = ''dataset'', sc_disable_logs = False,
      sc_config = Some \<lparr>cfg_preload = None, cfg_dataset_name = Some ''__name__'',
                         cfg_split = Some [], cfg_weights = None, cfg_batch_size = None\<rparr>\<rparr>
     ''pipeline'')) = False"
proof -
  let ?empty = "\<lparr>sc_name = ''dataset'', sc_disable_logs = False,
      sc_config = Some \<lparr>cfg_preload = None, cfg_dataset_name = Some ''__name__'',
                         cfg_split = Some [], cfg_weights = None, cfg_batch_size = None\<rparr>\<rparr>"
  have n1: "cfg_dataset_name (get_config (example_config (Some ''Nowhere'') (Some 4))) =
      Some ''Nowhere''" by (simp add: get_config_def)
  have n2: "cfg_dataset_name (get_config (example_config (Some ''__name__'') (Some 4))) =
      Some ''__name__''" by (simp add: get_config_def)
  have n3: "cfg_dataset_name (get_config ?empty) = Some ''__name__''"
    by (simp add: get_config_def)
  have a: "TorchVisionDataset_init example_env (example_config (Some ''Nowhere'') (Some 4))
      ''pipeline'' = ([], Inl (Exception ''Could not find dataset Nowhere.''))"
    using init_unknown_dataset [OF n1, of example_env "''pipeline''", THEN conjunct1]
    by simp
  have b: "TorchVisionDataset_init example_env (example_config (Some ''__name__'') (Some 4))
      ''pipeline'' = ([Getcwd, PathExists ''/work/data/__name__''], Inl TypeError)"
    using init_unknown_dataset
            [OF n2, of example_env "''pipeline''", THEN conjunct2, THEN conjunct1]
    by (simp add: get_config_def)
  from init_unknown_dataset
         [OF n3, of example_env "''pipeline''", THEN conjunct2, THEN conjunct2]
  obtain self where "TorchVisionDataset_init example_env ?empty ''pipeline'' =
      ([Getcwd, PathExists ''/work/data/__name__''], Inr self)"
    by (auto simp: get_config_def)
  then have c: "fst (TorchVisionDataset_init example_env ?empty ''pipeline'') =
      [Getcwd, PathExists ''/work/data/__name__'']"
    and d: "isl (snd (TorchVisionDataset_init example_env ?empty ''pipeline'')) = False"
    by simp_all
  from a b c d show ?thesis by simp
qed

text \<open>
  The claim as first stated asks for the not-found error on every name that is not a
  known provider. The name \<^verbatim>\<open>__name__\<close> is bound in the namespace to an object that
  is no provider; the constructor passes the lookup, probes the file system and fails
  with \<open>TypeError\<close>.
\<close>

theorem init_name_bound_to_other_object_counterexample:
  "TorchVisionDataset_init example_env (example_config (Some ''__name__'') None) ''pipeline'' =
     ([Getcwd, PathExists ''/work/data/__name__''], Inl TypeError)"
  by (simp add: TorchVisionDataset_init_def get_config_def)

lemma update_keys: "map fst (AList.update k v al) = (if k \<in> fst ` set al then map fst al else map fst al @ [k])"
  by (induction al) auto

lemma update_entries:
  "\<forall>(k, d) \<in> set al. P d \<Longrightarrow> P v \<Longrightarrow> \<forall>(k, d) \<in> set (AList.update k' v al). P d"
  by (induction al) auto

lemma build_datasets_keys:
  "build_datasets cls root_dir download t xs acc io = (io', Inr ds) \<Longrightarrow>
   distinct (map fst acc) \<Longrightarrow> (\<forall>(k, d) \<in> set acc. \<exists>c. d = Provided c) \<Longrightarrow>
     distinct (map fst ds) \<and> set (map fst ds) = set (map fst acc) \<union> set xs \<and>
     (\<forall>(k, d) \<in> set ds. \<exists>c. d = Provided c)"
proof (induction xs arbitrary: acc io)
  case Nil
  then show ?case by simp
next
  case (Cons x xs)
  from Cons.prems(1) obtain provider items where "cls = Callable provider"
    and items: "provider root_dir x download = Inr items"
    and rest: "build_datasets cls root_dir download t xs
        (AList.update x (Provided \<lparr>ic_transform = t, ic_items = items\<rparr>) acc)
        (io @ [ProviderCall root_dir x download]) = (io', Inr ds)"
    by (auto split: sum.splits namespace_entry.splits)
  let ?acc = "AList.update x (Provided \<lparr>ic_transform = t, ic_items = items\<rparr>) acc"
  have d: "distinct (map fst ?acc)" using Cons.prems(2) by (simp add: distinct_update)
  have p: "\<forall>(k, d) \<in> set ?acc. \<exists>c. d = Provided c"
    using Cons.prems(3) by (intro update_entries) auto
  have "set (map fst ?acc) = insert x (set (map fst acc))"
    by (simp add: dom_update)
  with Cons.IH [OF rest d p] show ?case by auto
qed

lemma init_Inr:
  assumes "TorchVisionDataset_init e stage_config parent = (io, Inr self)"
  shows "\<exists>dataset_name cls download t io0.
           cfg_dataset_name (get_config stage_config) = Some dataset_name \<and>
           providers e dataset_name = Some cls \<and>
           build_datasets cls (''data/'' @ dataset_name) download t
             (case cfg_split (get_config stage_config) of None \<Rightarrow> [''val''] | Some s \<Rightarrow> s)
             [] io0 = (io, Inr (datasets self)) \<and>
           batch_size self =
             (case cfg_batch_size (get_config stage_config) of None \<Rightarrow> 1 | Some b \<Rightarrow> b) \<and>
           preload self =
             (case cfg_preload (get_config stage_config) of None \<Rightarrow> False | Some b \<Rightarrow> b)"
proof -
  from assms obtain dataset_name where n: "cfg_dataset_name (get_config stage_config) = Some dataset_name"
    by (cases "cfg_dataset_name (get_config stage_config)")
       (auto simp: TorchVisionDataset_init_def)
  from assms n obtain cls where c: "providers e dataset_name = Some cls"
    by (cases "providers e dataset_name") (auto simp: TorchVisionDataset_init_def)
  show ?thesis
  proof (cases "cfg_weights (get_config stage_config)")
    case None
    with assms n c show ?thesis
      by (auto simp: TorchVisionDataset_init_def Let_def split: sum.splits prod.splits) blast+
  next
    case (Some weights_name)
    with assms n c obtain preprocess where "get_weight e weights_name = Some preprocess"
      by (cases "get_weight e weights_name") (auto simp: TorchVisionDataset_init_def Let_def)
    with Some assms n c show ?thesis
      by (auto simp: TorchVisionDataset_init_def Let_def split: sum.splits prod.splits) blast+
  qed
qed

lemma init_wellformed:
  assumes "TorchVisionDataset_init e stage_config parent = (io, Inr self)"
  shows "distinct (map fst (datasets self)) \<and>
         (\<forall>(k, d) \<in> set (datasets self). \<exists>c. d = Provided c) \<and>
         set (map fst (datasets self)) =
           set (case cfg_split (get_config stage_config) of None \<Rightarrow> [''val''] | Some s \<Rightarrow> s)"
proof -
  from init_Inr [OF assms] obtain dataset_name cls download t io0 where
    "build_datasets cls (''data/'' @ dataset_name) download t
       (case cfg_split (get_config stage_config) of None \<Rightarrow> [''val''] | Some s \<Rightarrow> s)
       [] io0 = (io, Inr (datasets self))"
    by blast
  from build_datasets_keys [OF this] show ?thesis by simp
qed

lemma update_new: "k \<notin> fst ` set al \<Longrightarrow> AList.update k v al = al @ [(k, v)]"
  by (induction al) auto

lemma num_batches_loop_nonzero:
  "bs \<noteq> 0 \<Longrightarrow> distinct (map fst acc @ map fst items) \<Longrightarrow>
     num_batches_loop bs items acc =
       Inr (acc @ map (\<lambda>(k, v). (k, int (dataset_len v) div bs)) items)"
proof (induction items arbitrary: acc)
  case Nil
  then show ?case by simp
next
  case (Cons item items)
  obtain k v where item: "item = (k, v)" by (cases item)
  have new: "k \<notin> fst ` set acc" using Cons.prems(2) item by auto
  have "distinct (map fst (acc @ [(k, int (dataset_len v) div bs)]) @ map fst items)"
    using Cons.prems(2) item by auto
  from Cons.IH [OF Cons.prems(1) this] show ?case
    using Cons.prems(1) new item by (simp add: update_new)
qed

lemma get_num_batches_nonzero:
  "batch_size self \<noteq> 0 \<Longrightarrow> distinct (map fst (datasets self)) \<Longrightarrow>
     get_num_batches self =
       Inr (map (\<lambda>(k, v). (k, int (dataset_len v) div batch_size self)) (datasets self))"
  using num_batches_loop_nonzero [of "batch_size self" "[]" "datasets self"]
  by (simp add: get_num_batches_def)

lemma get_num_batches_zero:
  "batch_size self = 0 \<Longrightarrow> datasets self \<noteq> [] \<Longrightarrow> get_num_batches self = Inl ZeroDivisionError"
  by (cases "datasets self") (auto simp: get_num_batches_def)


lemma map_of_entries:
  "map_of al k = Some v \<Longrightarrow> map_of (map (\<lambda>(k, v). (k, g v)) al) k = Some (g v)"
  by (induction al) (auto split: if_splits)

lemma floor_div: "\<lfloor>real n / real_of_int b\<rfloor> = int n div b"
  by (metis floor_divide_of_int_eq of_int_of_nat_eq)

text \<open>
  Claim C7, as amended. For every successfully constructed stage with a batch size
  other than zero,
  \<^verbatim>\<open>get_num_batches\<close> returns, for every split \<open>s\<close> of the datasets mapping, the
  floor of \<open>len(get_datasets()[s]) / batch_size\<close>; it has the keys of the datasets
  mapping, and the datasets mapping has exactly one entry per requested split.
\<close>

theorem get_num_batches_floor:
  assumes "TorchVisionDataset_init e stage_config parent = (io, Inr self)"
    and "batch_size self \<noteq> 0"
  shows "\<exists>counts. get_num_batches self = Inr counts \<and>
           map fst counts = map fst (get_datasets self) \<and>
           (\<forall>s d. map_of (get_datasets self) s = Some d \<longrightarrow>
              map_of counts s = Some \<lfloor>real (dataset_len d) / real_of_int (batch_size self)\<rfloor>) \<and>
           distinct (map fst (get_datasets self)) \<and>
           set (map fst (get_datasets self)) =
             set (case cfg_split (get_config stage_config) of None \<Rightarrow> [''val''] | Some s \<Rightarrow> s)"
proof -
  let ?counts = "map (\<lambda>(k, v). (k, int (dataset_len v) div batch_size self)) (datasets self)"
  from init_wellformed [OF assms(1)]
  have dist: "distinct (map fst (datasets self))"
    and keys: "set (map fst (datasets self)) =
      set (case cfg_split (get_config stage_config) of None \<Rightarrow> [''val''] | Some s \<Rightarrow> s)"
    by simp_all
  have "get_num_batches self = Inr ?counts"
    using assms(2) dist by (rule get_num_batches_nonzero)
  moreover have "map fst ?counts = map fst (datasets self)"
    by (rule map_fst_entries)
  moreover have "map_of ?counts s = Some \<lfloor>real (dataset_len d) / real_of_int (batch_size self)\<rfloor>"
    if "map_of (datasets self) s = Some d" for s d
    using map_of_entries [OF that, of "\<lambda>v. int (dataset_len v) div batch_size self"]
    by (simp add: floor_div)
  ultimately show ?thesis
    using dist keys by (intro exI [of _ ?counts]) (simp add: get_datasets_def)
qed

theorem get_num_batches_floor_witness:
  "TorchVisionDataset_init example_env (example_config (Some ''Example'') (Some 4)) ''pipeline'' =
     ([Getcwd, PathExists ''/work/data/Example'', ProviderCall ''data/Example'' ''val'' True],
      Inr (example_stage False
             [(''val'', Provided \<lparr>ic_transform = Some id, ic_items = replicate 10 (0, True)\<rparr>)] 4)) \<and>
   get_num_batches
     (example_stage False
        [(''val'', Provided \<lparr>ic_transform = Some id, ic_items = replicate 10 (0, True)\<rparr>)] 4) =
     Inr [(''val'', 2)]"
proof -
  let ?d = "Provided \<lparr>ic_transform = Some id, ic_items = replicate 10 (0::nat, True)\<rparr>"
  let ?self = "example_stage False [(''val'', ?d)] 4"
  have init: "TorchVisionDataset_init example_env (example_config (Some ''Example'') (Some 4))
      ''pipeline'' =
     ([Getcwd, PathExists ''/work/data/Example'', ProviderCall ''data/Example'' ''val'' True],
      Inr ?self)"
    using example_init [of "Some 4"] by simp
  have bs: "batch_size ?self \<noteq> 0" by simp
  from get_num_batches_floor [OF init bs]
  obtain counts where c: "get_num_batches ?self = Inr counts"
    and k: "map fst counts = map fst (get_datasets ?self)"
    and m: "\<forall>s d. map_of (get_datasets ?self) s = Some d \<longrightarrow>
              map_of counts s = Some \<lfloor>real (dataset_len d) / real_of_int (batch_size ?self)\<rfloor>"
    by blast
  have ds: "get_datasets ?self = [(''val'', ?d)]" by (simp add: get_datasets_def)
  from k ds obtain n where cn: "counts = [(''val'', n)]" by (cases counts) auto
  have look: "map_of (get_datasets ?self) ''val'' = Some ?d" unfolding ds by simp
  have len: "dataset_len ?d = 10" by (simp add: IndexedCollection_len_def)
  have fl: "\<lfloor>real (10::nat) / real_of_int 4\<rfloor> = (2::int)"
    unfolding floor_div by simp
  have "map_of counts ''val'' = Some \<lfloor>real (dataset_len ?d) / real_of_int (batch_size ?self)\<rfloor>"
    using m look by blast
  then have "map_of counts ''val'' = Some 2"
    unfolding len using fl by simp
  with cn have "counts = [(''val'', 2)]" by simp
  with c init show ?thesis by simp
qed

text \<open>
  The claim as first stated covers every successfully constructed stage. The constructor
  accepts the batch size 0, and \<^verbatim>\<open>get_num_batches\<close> then raises
  \<open>ZeroDivisionError\<close>.
\<close>

theorem zero_batch_size_counterexample:
  "TorchVisionDataset_init example_env (example_config (Some ''Example'') (Some 0)) ''pipeline'' =
     ([Getcwd, PathExists ''/work/data/Example'', ProviderCall ''data/Example'' ''val'' True],
      Inr (example_stage False
             [(''val'', Provided \<lparr>ic_transform = Some id, ic_items = replicate 10 (0, True)\<rparr>)] 0)) \<and>
   get_num_batches
     (example_stage False
        [(''val'', Provided \<lparr>ic_transform = Some id, ic_items = replicate 10 (0, True)\<rparr>)] 0) =
     Inl ZeroDivisionError"
  using example_init [of "Some 0"] by (simp add: get_num_batches_def)

lemma init_batch_size_independent:
  "TorchVisionDataset_init e (stage_config\<lparr>sc_config := Some (cfg\<lparr>cfg_batch_size := bs\<rparr>)\<rparr>) parent =
     (case TorchVisionDataset_init e
             (stage_config\<lparr>sc_config := Some (cfg\<lparr>cfg_batch_size := None\<rparr>)\<rparr>) parent of
        (io, Inl err) \<Rightarrow> (io, Inl err)
      | (io, Inr self) \<Rightarrow>
          (io, Inr (self\<lparr>batch_size := (case bs of None \<Rightarrow> 1 | Some b \<Rightarrow> b)\<rparr>)))"
proof (cases "cfg_dataset_name cfg")
  case None
  then show ?thesis by (simp add: TorchVisionDataset_init_def get_config_def)
next
  case name: (Some dataset_name)
  show ?thesis
  proof (cases "providers e dataset_name")
    case None
    with name show ?thesis by (simp add: TorchVisionDataset_init_def get_config_def)
  next
    case cls: (Some cls)
    show ?thesis
    proof (cases "cfg_weights cfg")
      case None
      with name cls show ?thesis
        by (simp add: TorchVisionDataset_init_def get_config_def Let_def
              del: os_path_join.simps split: prod.splits sum.splits)
    next
      case w: (Some weights_name)
      show ?thesis
      proof (cases "get_weight e weights_name")
        case None
        with name cls w show ?thesis
          by (simp add: TorchVisionDataset_init_def get_config_def)
      next
        case (Some preprocess)
        with name cls w show ?thesis
          by (simp add: TorchVisionDataset_init_def get_config_def Let_def
                del: os_path_join.simps split: prod.splits sum.splits)
      qed
    qed
  qed
qed

text \<open>
  Claim C8, as amended. \<open>batch_size\<close> is 1 when the configuration has none, and the
  constructor stores a given one unchanged. It is not validated: the constructor
  succeeds or fails as it does without it, whatever its value. With the batch size 0
  and at least one split, \<^verbatim>\<open>get_num_batches\<close> raises \<open>ZeroDivisionError\<close>; with a
  negative one it returns the floor of \<open>len / batch_size\<close> for every split.
\<close>

theorem batch_size_not_validated:
  "(TorchVisionDataset_init e stage_config parent = (io, Inr self) \<longrightarrow>
      batch_size self =
        (case cfg_batch_size (get_config stage_config) of None \<Rightarrow> 1 | Some b \<Rightarrow> b)) \<and>
   TorchVisionDataset_init e (stage_config\<lparr>sc_config := Some (cfg\<lparr>cfg_batch_size := bs\<rparr>)\<rparr>) parent =
     (case TorchVisionDataset_init e
             (stage_config\<lparr>sc_config := Some (cfg\<lparr>cfg_batch_size := None\<rparr>)\<rparr>) parent of
        (io, Inl err) \<Rightarrow> (io, Inl err)
      | (io, Inr self) \<Rightarrow>
          (io, Inr (self\<lparr>batch_size := (case bs of None \<Rightarrow> 1 | Some b \<Rightarrow> b)\<rparr>))) \<and>
   (batch_size self = 0 \<and> datasets self \<noteq> [] \<longrightarrow>
      get_num_batches self = Inl ZeroDivisionError) \<and>
   (batch_size self < 0 \<and> distinct (map fst (datasets self)) \<longrightarrow>
      get_num_batches self =
        Inr (map (\<lambda>(s, d). (s, \<lfloor>real (dataset_len d) / real_of_int (batch_size self)\<rfloor>))
               (datasets self)))"
proof (intro conjI impI)
  assume "TorchVisionDataset_init e stage_config parent = (io, Inr self)"
  from init_Inr [OF this]
  show "batch_size self =
        (case cfg_batch_size (get_config stage_config) of None \<Rightarrow> 1 | Some b \<Rightarrow> b)"
    by blast
next
  show "TorchVisionDataset_init e (stage_config\<lparr>sc_config := Some (cfg\<lparr>cfg_batch_size := bs\<rparr>)\<rparr>) parent =
     (case TorchVisionDataset_init e
             (stage_config\<lparr>sc_config := Some (cfg\<lparr>cfg_batch_size := None\<rparr>)\<rparr>) parent of
        (io, Inl err) \<Rightarrow> (io, Inl err)
      | (io, Inr self) \<Rightarrow>
          (io, Inr (self\<lparr>batch_size := (case bs of None \<Rightarrow> 1 | Some b \<Rightarrow> b)\<rparr>)))"
    by (rule init_batch_size_independent)
next
  assume "batch_size self = 0 \<and> datasets self \<noteq> []"
  then show "get_num_batches self = Inl ZeroDivisionError"
    by (simp add: get_num_batches_zero)
next
  assume a: "batch_size self < 0 \<and> distinct (map fst (datasets self))"
  then have "batch_size self \<noteq> 0" by simp
  with a show "get_num_batches self =
        Inr (map (\<lambda>(s, d). (s, \<lfloor>real (dataset_len d) / real_of_int (batch_size self)\<rfloor>))
               (datasets self))"
    by (simp add: get_num_batches_nonzero floor_div)
qed

theorem batch_size_not_validated_witness:
  "TorchVisionDataset_init example_env (example_config (Some ''Example'') None) ''pipeline'' =
     ([Getcwd, PathExists ''/work/data/Example'', ProviderCall ''data/Example'' ''val'' True],
      Inr (example_stage False
             [(''val'', Provided \<lparr>ic_transform = Some id, ic_items = replicate 10 (0, True)\<rparr>)] 1)) \<and>
   batch_size (example_stage False
             [(''val'', Provided \<lparr>ic_transform = Some id, ic_items = replicate 10 (0, True)\<rparr>)] 1) = 1 \<and>
   TorchVisionDataset_init example_env (example_config (Some ''Example'') (Some 0)) ''pipeline'' =
     ([Getcwd, PathExists ''/work/data/Example'', ProviderCall ''data/Example'' ''val'' True],
      Inr (example_stage False
             [(''val'', Provided \<lparr>ic_transform = Some id, ic_items = replicate 10 (0, True)\<rparr>)] 0)) \<and>
   get_num_batches
     (example_stage False
        [(''val'', Provided \<lparr>ic_transform = Some id, ic_items = replicate 10 (0, True)\<rparr>)] 0) =
     Inl ZeroDivisionError \<and>
   get_num_batches
     (example_stage False
        [(''val'', Provided \<lparr>ic_transform = Some id, ic_items = replicate 10 (0, True)\<rparr>)] (- 4)) =
     Inr [(''val'', - 3)]"
proof -
  let ?ds = "[(''val'', Provided \<lparr>ic_transform = Some id, ic_items = replicate 10 (0::nat, True)\<rparr>)]"
  let ?io = "[Getcwd, PathExists ''/work/data/Example'', ProviderCall ''data/Example'' ''val'' True]"
  have i1: "TorchVisionDataset_init example_env (example_config (Some ''Example'') None)
      ''pipeline'' = (?io, Inr (example_stage False ?ds 1))"
    using example_init [of None] by simp
  have b1: "batch_size (example_stage False ?ds 1) = 1"
    using batch_size_not_validated
            [where e = example_env and stage_config = "example_config (Some ''Example'') None"
               and parent = "''pipeline''" and io = ?io and self = "example_stage False ?ds 1",
             THEN conjunct1] i1
    by (simp add: get_config_def)
  have i0: "TorchVisionDataset_init example_env (example_config (Some ''Example'') (Some 0))
      ''pipeline'' = (?io, Inr (example_stage False ?ds 0))"
    using batch_size_not_validated
            [where e = example_env and stage_config = "example_config (Some ''Example'') None"
               and parent = "''pipeline''" and bs = "Some 0"
               and cfg = "\<lparr>cfg_preload = None, cfg_dataset_name = Some ''Example'',
                         cfg_split = None, cfg_weights = None, cfg_batch_size = None\<rparr>",
             THEN conjunct2, THEN conjunct1] i1
    by simp
  have z: "get_num_batches (example_stage False ?ds 0) = Inl ZeroDivisionError"
    using batch_size_not_validated
            [where self = "example_stage False ?ds 0", THEN conjunct2, THEN conjunct2,
             THEN conjunct1]
    by simp
  have fl: "\<lfloor>real (10::nat) / real_of_int (- 4)\<rfloor> = (- 3::int)"
    unfolding floor_div by simp
  have n: "get_num_batches (example_stage False ?ds (- 4)) = Inr [(''val'', - 3)]"
    using batch_size_not_validated
            [where self = "example_stage False ?ds (- 4)", THEN conjunct2, THEN conjunct2,
             THEN conjunct2] fl
    by (simp add: IndexedCollection_len_def)
  from i1 b1 i0 z n show ?thesis by simp
qed

text \<open>
  The claim as first stated lets the stage fail with a configuration error on every
  batch size that is not positive. With the batch size \<open>-4\<close> the constructor returns
  the stage, and \<^verbatim>\<open>get_num_batches\<close> computes \<open>-3\<close> batches for ten items.
\<close>

theorem negative_batch_size_counterexample:
  "TorchVisionDataset_init example_env (example_config (Some ''Example'') (Some (- 4)))
     ''pipeline'' =
     ([Getcwd, PathExists ''/work/data/Example'', ProviderCall ''data/Example'' ''val'' True],
      Inr (example_stage False
             [(''val'', Provided \<lparr>ic_transform = Some id, ic_items = replicate 10 (0, True)\<rparr>)]
             (- 4))) \<and>
   get_num_batches
     (example_stage False
        [(''val'', Provided \<lparr>ic_transform = Some id, ic_items = replicate 10 (0, True)\<rparr>)] (- 4)) =
     Inr [(''val'', - 3)]"
  using example_init [of "Some (- 4)"]
  by (simp add: get_num_batches_def IndexedCollection_len_def)

section \<open>Properties of the run loop\<close>

lemma get_next_from_queues_Some:
  "get_next_from_queues qs = (Some rs, rest) \<Longrightarrow>
     rs = map hd qs \<and> rest = map tl qs \<and> (\<forall>q \<in> set qs. q \<noteq> [])"
  by (induction qs arbitrary: rs rest rule: get_next_from_queues.induct)
     (auto split: prod.splits option.splits)

lemma get_next_from_queues_nonempty:
  "\<forall>q \<in> set qs. q \<noteq> [] \<Longrightarrow> get_next_from_queues qs = (Some (map hd qs), map tl qs)"
  by (induction qs rule: get_next_from_queues.induct) auto

lemma is_done_iff: "is_done rs \<longleftrightarrow> Sentinel \<in> set rs"
  by (auto simp: is_done_def list_ex_iff)

lemma first_value_Cons: "first_value (r # rs) = Inr r"
  by (simp add: first_value_def list_getitem_def)

lemma run_done:
  assumes "get_next_from_queues (input_queues qs) = (Some inputs, rest)"
    and "Sentinel \<in> set inputs"
  shows "run self qs =
           Terminated (qs\<lparr>input_queues := rest,
                          output_queues := map (\<lambda>q. q @ [hd inputs]) (output_queues qs)\<rparr>)"
proof -
  from assms(2) obtain r rs where inputs: "inputs = r # rs" by (cases inputs) auto
  show ?thesis
    using assms
    by (subst run.simps)
       (simp add: inputs is_done_iff first_value_Cons push_to_output_def)
qed

text \<open>
  Claim C1, as amended. In every execution of \<^verbatim>\<open>run\<close> in which the records fetched
  from the input queues include the termination sentinel, for any queue, one record has
  been fetched from every input queue, \<^verbatim>\<open>run\<close> forwards the record of the first
  queue's slot to every output queue and halts. That record is the sentinel only when
  the first queue yielded it. The records fetched from the other queues are not
  forwarded, and the records behind the fetched ones stay in their queues.
\<close>

theorem run_sentinel_forwards_first_slot:
  assumes "get_next_from_queues (input_queues qs) = (Some inputs, rest)"
    and "Sentinel \<in> set inputs"
  shows "inputs = map hd (input_queues qs) \<and>
         rest = map tl (input_queues qs) \<and>
         run self qs =
           Terminated (qs\<lparr>input_queues := map tl (input_queues qs),
                          output_queues :=
                            map (\<lambda>q. q @ [hd (hd (input_queues qs))]) (output_queues qs)\<rparr>)"
proof -
  from get_next_from_queues_Some [OF assms(1)]
  have i: "inputs = map hd (input_queues qs)" and r: "rest = map tl (input_queues qs)"
    by simp_all
  from assms(2) i have "input_queues qs \<noteq> []" by auto
  then have "hd inputs = hd (hd (input_queues qs))"
    using i by (simp add: hd_map)
  with run_done [OF assms, of self] i r show ?thesis by simp
qed

theorem run_sentinel_forwards_first_slot_witness:
  "get_next_from_queues [[Sentinel, Payload (1::nat)], [Payload 2, Payload 3]] =
     (Some [Sentinel, Payload 2], [[Payload 1], [Payload 3]]) \<and>
   Sentinel \<in> set [Sentinel, Payload (2::nat)] \<and>
   run (example_stage False [] 1)
     \<lparr>input_queues = [[Sentinel, Payload (1::nat)], [Payload 2, Payload 3]],
      output_queues = [[], [Payload 0]], events = []\<rparr> =
     Terminated \<lparr>input_queues = [[Payload 1], [Payload 3]],
                 output_queues = [[Sentinel], [Payload 0, Sentinel]], events = []\<rparr>"
proof -
  let ?qs = "\<lparr>input_queues = [[Sentinel, Payload (1::nat)], [Payload 2, Payload 3]],
      output_queues = [[], [Payload 0]], events = []\<rparr>"
  have f: "get_next_from_queues (input_queues ?qs) =
      (Some [Sentinel, Payload 2], [[Payload 1], [Payload 3]])" by simp
  have s: "Sentinel \<in> set [Sentinel, Payload (2::nat)]" by simp
  from run_sentinel_forwards_first_slot [OF f s, of "example_stage False [] 1"] f s
  show ?thesis by simp
qed

text \<open>
  The claim as first stated lets \<^verbatim>\<open>run\<close> forward the sentinel whichever queue
  yielded it. When the second queue yields the sentinel and the first a payload, the
  output receives the payload and no sentinel.
\<close>

theorem run_sentinel_in_later_queue_counterexample:
  "run (example_stage False [] 1)
     \<lparr>input_queues = [[Payload (1::nat), Payload 2], [Sentinel, Payload 3]],
      output_queues = [[]], events = []\<rparr> =
     Terminated \<lparr>input_queues = [[Payload 2], [Payload 3]],
                 output_queues = [[Payload 1]], events = []\<rparr>"
  by (subst run.simps)
     (simp add: is_done_def first_value_def list_getitem_def push_to_output_def)

lemma run_payload_step:
  "run self \<lparr>input_queues = [Payload a # q], output_queues = outs, events = evs\<rparr> =
     run self \<lparr>input_queues = [q], output_queues = map (\<lambda>out. out @ [Payload a]) outs,
               events = evs @ (if disable_logs self then []
                  else [(parent_name self, name self, ''run'', ''start''),
                        (parent_name self, name self, ''run'', ''end'')])\<rparr>"
  by (subst run.simps)
     (simp add: is_done_def first_value_def list_getitem_def push_to_output_def
        log_phase_single_def)

lemma run_sentinel_step:
  "run self \<lparr>input_queues = [Sentinel # q], output_queues = outs, events = evs\<rparr> =
     Terminated \<lparr>input_queues = [q], output_queues = map (\<lambda>out. out @ [Sentinel]) outs,
                 events = evs\<rparr>"
  by (subst run.simps)
     (simp add: is_done_def first_value_def list_getitem_def push_to_output_def)

lemma run_single_queue_order:
  "run self \<lparr>input_queues = [map Payload xs @ Sentinel # q], output_queues = outs,
             events = evs\<rparr> =
     Terminated \<lparr>input_queues = [q],
                 output_queues = map (\<lambda>out. out @ map Payload xs @ [Sentinel]) outs,
                 events = evs @ concat (map (\<lambda>x. if disable_logs self then []
                    else [(parent_name self, name self, ''run'', ''start''),
                          (parent_name self, name self, ''run'', ''end'')]) xs)\<rparr>"
proof (induction xs arbitrary: outs evs)
  case Nil
  show ?case by (simp add: run_sentinel_step)
next
  case (Cons x xs)
  show ?case by (simp add: run_payload_step Cons.IH comp_def)
qed

text \<open>
  Claim C3. On a single input queue holding the records \<open>A\<close>, \<open>B\<close> and the sentinel in
  that order, \<^verbatim>\<open>run\<close> appends \<open>A\<close>, \<open>B\<close> and the sentinel, in that order, to every
  output queue, and then the loop exits: the stage is terminated. Unless logs are
  disabled, a start and an end event are emitted around each of the two payloads.
\<close>

theorem run_single_queue_scenario:
  "run self \<lparr>input_queues = [[Payload a, Payload b, Sentinel]], output_queues = outs,
             events = evs\<rparr> =
     Terminated \<lparr>input_queues = [[]],
                 output_queues = map (\<lambda>out. out @ [Payload a, Payload b, Sentinel]) outs,
                 events = evs @ (if disable_logs self then []
                    else [(parent_name self, name self, ''run'', ''start''),
                          (parent_name self, name self, ''run'', ''end''),
                          (parent_name self, name self, ''run'', ''start''),
                          (parent_name self, name self, ''run'', ''end'')])\<rparr>"
  using run_single_queue_order [of self "[a, b]" "[]" outs evs] by simp

theorem run_single_queue_scenario_witness:
  "run (example_stage False [] 1)
     \<lparr>input_queues = [[Payload (1::nat), Payload 2, Sentinel]], output_queues = [[]],
      events = []\<rparr> =
     Terminated \<lparr>input_queues = [[]],
                 output_queues = [[Payload 1, Payload 2, Sentinel]],
                 events = [(''pipeline'', ''dataset'', ''run'', ''start''),
                           (''pipeline'', ''dataset'', ''run'', ''end''),
                           (''pipeline'', ''dataset'', ''run'', ''start''),
                           (''pipeline'', ''dataset'', ''run'', ''end'')]\<rparr>"
  using run_single_queue_scenario [of "example_stage False [] 1" "1::nat" 2 "[[]]" "[]"]
  by simp

end
